theory Spec2Isabelle
  imports Main "HOL-Library.Multiset"
begin

section \<open>envfile: loading environment variables from files\<close>

text \<open>
  A shallow embedding of \<^verbatim>\<open>envfile.go\<close>. Go strings are byte sequences and are
  modelled as \<^typ>\<open>string\<close> (a list of 8-bit characters). Where the source ranges
  over the runes of a string or converts it to runes and back, the model decodes UTF-8
  as Go does: a byte that starts no well-formed encoding is the rune U+FFFD, which is
  written back as three bytes. \<^verbatim>\<open>strings.TrimSpace\<close> removes the white space of
  Unicode. A slice expression out of range is a run-time panic, the result \<open>Panic\<close>.
  The file is the sequence of lines that \<^verbatim>\<open>bufio.Scanner\<close> delivers, the
  ambient environment is a map from names to values.
\<close>

subsection \<open>The data model\<close>

record payload =
  Line :: nat
  Export :: bool
  Overload :: bool
  Key :: string
  Value :: string

text \<open>
  Every \<^verbatim>\<open>fmt.Errorf\<close> of the source is one constructor, holding the arguments
  of its format string; \<open>OpenError\<close> is the error of \<^verbatim>\<open>os.Open\<close> and
  \<open>SetenvError\<close> the wrapped error of \<^verbatim>\<open>os.Setenv\<close>. \<open>Panic\<close> is no error
  value: it stands for the run-time panic of a slice expression out of range, with
  which the call does not return.
\<close>

datatype error =
    OpenError string
  | CantSplitLine string nat
  | KeyNameEmpty string nat
  | InvalidKeyName string nat string
  | DuplicateKey string nat string
  | ExcessOpeningAtEnd string nat
  | NoClosingBrace string nat
  | ExcessClosing string nat
  | ExcessOpening string nat
  | ExcessClosingAtBeginning string nat
  | NoOpeningBrace string nat
  | VariableNameEmpty string nat
  | UsedRecursively string nat string
  | DoesNotExist string nat string
  | SetenvError string
  | Panic

datatype error_kind =
  IOError | SyntaxError | BraceError | ResolutionError | EnvWriteError | RuntimePanic

text \<open>The taxonomy of the specification (section 7), by the message of the source;
  the panic is outside it.\<close>

fun kind_of :: "error \<Rightarrow> error_kind" where
  "kind_of (OpenError f) = IOError"
| "kind_of (CantSplitLine f l) = SyntaxError"
| "kind_of (KeyNameEmpty f l) = SyntaxError"
| "kind_of (InvalidKeyName f l k) = SyntaxError"
| "kind_of (DuplicateKey f l k) = SyntaxError"
| "kind_of (ExcessOpeningAtEnd f l) = BraceError"
| "kind_of (NoClosingBrace f l) = BraceError"
| "kind_of (ExcessClosing f l) = BraceError"
| "kind_of (ExcessOpening f l) = BraceError"
| "kind_of (ExcessClosingAtBeginning f l) = BraceError"
| "kind_of (NoOpeningBrace f l) = BraceError"
| "kind_of (VariableNameEmpty f l) = BraceError"
| "kind_of (UsedRecursively f l k) = BraceError"
| "kind_of (DoesNotExist f l v) = ResolutionError"
| "kind_of (SetenvError f) = EnvWriteError"
| "kind_of Panic = RuntimePanic"

type_synonym env = "string \<rightharpoonup> string"

type_synonym files = "string \<rightharpoonup> string list"

subsection \<open>The functions of package strings\<close>

definition backslash :: char where
  "backslash = CHR 0x5C"

definition newline :: char where
  "newline = CHR 0x0A"

definition tab :: char where
  "tab = CHR 0x09"

text \<open>The UTF-8 encodings of the runes for which \<^verbatim>\<open>unicode.IsSpace\<close> holds: the six
  of ASCII, U+0085, U+00A0, U+1680, U+2000 to U+200A, U+2028, U+2029, U+202F, U+205F
  and U+3000.\<close>

definition space_encodings :: "string list" where
  "space_encodings =
     [[CHR 0x09], [CHR 0x0A], [CHR 0x0B], [CHR 0x0C], [CHR 0x0D], [CHR 0x20],
      [CHR 0xC2, CHR 0x85], [CHR 0xC2, CHR 0xA0], [CHR 0xE1, CHR 0x9A, CHR 0x80],
      [CHR 0xE2, CHR 0x80, CHR 0x80], [CHR 0xE2, CHR 0x80, CHR 0x81],
      [CHR 0xE2, CHR 0x80, CHR 0x82], [CHR 0xE2, CHR 0x80, CHR 0x83],
      [CHR 0xE2, CHR 0x80, CHR 0x84], [CHR 0xE2, CHR 0x80, CHR 0x85],
      [CHR 0xE2, CHR 0x80, CHR 0x86], [CHR 0xE2, CHR 0x80, CHR 0x87],
      [CHR 0xE2, CHR 0x80, CHR 0x88], [CHR 0xE2, CHR 0x80, CHR 0x89],
      [CHR 0xE2, CHR 0x80, CHR 0x8A], [CHR 0xE2, CHR 0x80, CHR 0xA8],
      [CHR 0xE2, CHR 0x80, CHR 0xA9], [CHR 0xE2, CHR 0x80, CHR 0xAF],
      [CHR 0xE2, CHR 0x81, CHR 0x9F], [CHR 0xE3, CHR 0x80, CHR 0x80]]"

definition HasPrefix :: "string \<Rightarrow> string \<Rightarrow> bool" where
  "HasPrefix s p = (take (length p) s = p)"

text \<open>\<^verbatim>\<open>strings.TrimLeftFunc\<close> for a test given by the encodings of its runes: while
  the string begins with one of them, it is cut off.\<close>

function trim_left :: "string list \<Rightarrow> string \<Rightarrow> string" where
  "trim_left encodings s =
     (case find (\<lambda>w. w \<noteq> [] \<and> HasPrefix s w) encodings of
        None \<Rightarrow> s
      | Some w \<Rightarrow> trim_left encodings (drop (length w) s))"
  by pat_completeness auto
termination
proof (relation "measure (\<lambda>(encodings, s). length s)")
  show "wf (measure (\<lambda>(encodings, s). length s))"
    by simp
next
  fix encodings :: "string list" and s w :: string
  assume "find (\<lambda>w. w \<noteq> [] \<and> HasPrefix s w) encodings = Some w"
  then have w: "w \<noteq> []" and "take (length w) s = w"
    by (auto simp: find_Some_iff HasPrefix_def)
  then have "s \<noteq> []" by auto
  with w show "((encodings, drop (length w) s), (encodings, s))
      \<in> measure (\<lambda>(encodings, s). length s)"
    by simp
qed

declare trim_left.simps [simp del]

text \<open>\<^verbatim>\<open>strings.TrimSpace\<close>: the white space is cut off at the left and, read from
  the end, at the right.\<close>

definition TrimSpace :: "string \<Rightarrow> string" where
  "TrimSpace s =
     rev (trim_left (map rev space_encodings) (rev (trim_left space_encodings s)))"

definition lower_char :: "char \<Rightarrow> char" where
  "lower_char c =
     (case map_of (zip ''ABCDEFGHIJKLMNOPQRSTUVWXYZ'' ''abcdefghijklmnopqrstuvwxyz'') c of
        None \<Rightarrow> c | Some d \<Rightarrow> d)"

definition ToLower :: "string \<Rightarrow> string" where
  "ToLower s = map lower_char s"

text \<open>\<^verbatim>\<open>strings.SplitN(s, "=", 2)\<close>: one piece when there is no separator, else the
  text before the first separator and the text after it.\<close>

definition SplitN2 :: "string \<Rightarrow> string list" where
  "SplitN2 s =
     (if CHR ''='' \<in> set s
      then [takeWhile (\<lambda>c. c \<noteq> CHR ''='') s, tl (dropWhile (\<lambda>c. c \<noteq> CHR ''='') s)]
      else [s])"

text \<open>\<^verbatim>\<open>strings.Count(s, c)\<close> for a one-byte separator.\<close>

definition Count :: "string \<Rightarrow> char \<Rightarrow> nat" where
  "Count s c = length (filter (\<lambda>d. d = c) s)"

text \<open>\<^verbatim>\<open>strings.ReplaceAll(s, old, new)\<close>: the occurrences of \<open>old\<close> are replaced
  from left to right, without overlap. (The source calls it with a two-byte \<open>old\<close>;
  for the empty \<open>old\<close> Go inserts \<open>new\<close> around every character.)\<close>

function ReplaceAll :: "string \<Rightarrow> string \<Rightarrow> string \<Rightarrow> string" where
  "ReplaceAll s old new =
     (if old = [] then new @ concat (map (\<lambda>c. c # new) s)
      else if s = [] then []
      else if take (length old) s = old
        then new @ ReplaceAll (drop (length old) s) old new
      else hd s # ReplaceAll (tl s) old new)"
  by pat_completeness auto
termination
  by (relation "measure (\<lambda>(s, old, new). length s)") auto

declare ReplaceAll.simps [simp del]

text \<open>\<^verbatim>\<open>s[lo:hi]\<close> within the string; the places that use it test the range.\<close>

definition slice :: "string \<Rightarrow> nat \<Rightarrow> nat \<Rightarrow> string" where
  "slice s lo hi = take (hi - lo) (drop lo s)"

subsection \<open>The line parser (lines 106 to 180)\<close>

definition valid_key_char :: "char \<Rightarrow> bool" where
  "valid_key_char c =
     (c \<in> set ''ABCDEFGHIJKLMNOPQRSTUVWXYZabcdefghijklmnopqrstuvwxyz0123456789_'')"

text \<open>\<^verbatim>\<open>validation.MatchString\<close> for the expression \<^verbatim>\<open>^[A-Za-z0-9_]+$\<close>.\<close>

definition validation :: "string \<Rightarrow> bool" where
  "validation k = (k \<noteq> [] \<and> list_all valid_key_char k)"

text \<open>The two directive tests (lines 134 to 154): from the text left of the equal
  sign to the export flag, the overload flag and the key name.\<close>

definition export_directive :: "string \<Rightarrow> bool \<times> string" where
  "export_directive k =
     (if HasPrefix (ToLower k) ''export'' then (True, TrimSpace (drop 6 k)) else (False, k))"

definition overload_directive :: "string \<Rightarrow> bool \<times> string" where
  "overload_directive k =
     (if HasPrefix (ToLower k) ''overload'' then (True, TrimSpace (drop 8 k)) else (False, k))"

definition parse_key :: "string \<Rightarrow> bool \<times> bool \<times> string" where
  "parse_key left =
     (let (ex, k1) = export_directive (TrimSpace left);
          (ov, k2) = overload_directive k1
      in (ex, ov, k2))"

text \<open>One turn of the scanner loop, for the line numbered \<open>line\<close>: the payloads so far
  and maybe one more, or the error returned.\<close>

definition parse_line :: "string \<Rightarrow> nat \<Rightarrow> string \<Rightarrow> payload list \<Rightarrow> error + payload list" where
  "parse_line filename line text payloads =
     (let current = TrimSpace text in
      if length current = 0 \<or> HasPrefix current ''#'' then Inr payloads
      else let pair = SplitN2 current in
      if length pair \<noteq> 2 then Inl (CantSplitLine filename line)
      else let (ex, ov, k) = parse_key (pair ! 0) in
      if length k = 0 then Inl (KeyNameEmpty filename line)
      else if \<not> validation k then Inl (InvalidKeyName filename line k)
      else if list_ex (\<lambda>pld. Key pld = k) payloads then Inl (DuplicateKey filename line k)
      else Inr (payloads @
        [\<lparr>Line = line, Export = ex, Overload = ov, Key = k, Value = TrimSpace (pair ! 1)\<rparr>]))"

fun parse_lines :: "string \<Rightarrow> nat \<Rightarrow> string list \<Rightarrow> payload list \<Rightarrow> error + payload list" where
  "parse_lines filename line [] payloads = Inr payloads"
| "parse_lines filename line (text # rest) payloads =
     (case parse_line filename (Suc line) text payloads of
        Inl e \<Rightarrow> Inl e
      | Inr payloads' \<Rightarrow> parse_lines filename (Suc line) rest payloads')"

subsection \<open>The escape processor (lines 440 to 474)\<close>

text \<open>The function given to \<^verbatim>\<open>ReplaceAllStringFunc\<close>; \<open>m\<close> is a match of the
  expression \<^verbatim>\<open>\\.\<close>, a backslash and one more character.\<close>

definition unescape_match :: "string \<Rightarrow> string" where
  "unescape_match m =
     (let t = (if HasPrefix m [backslash] then drop 1 m else m) in
      if t = ''n'' then [newline]
      else if t = ''t'' then [tab]
      else if t = [backslash] then [backslash]
      else m)"

text \<open>\<^verbatim>\<open>unescape.ReplaceAllStringFunc\<close>: the matches are taken from left to right
  without overlap; the dot of the expression does not match a line feed.\<close>

fun unescape :: "string \<Rightarrow> string" where
  "unescape (b # c # rest) =
     (if b = backslash \<and> c \<noteq> newline then unescape_match [b, c] @ unescape rest
      else b # unescape (c # rest))"
| "unescape s = s"

definition escape_value :: "string \<Rightarrow> string" where
  "escape_value v = unescape (ReplaceAll (ReplaceAll v ''{{'' ''{'') ''}}'' ''}'')"

definition escape_payload :: "payload \<Rightarrow> payload" where
  "escape_payload p = p\<lparr>Value := escape_value (Value p)\<rparr>"

subsection \<open>The runes of a string\<close>

text \<open>The bytes of a string as natural numbers.\<close>

definition byte :: "char \<Rightarrow> nat" where
  "byte c = of_char c"

definition between :: "nat \<Rightarrow> nat \<Rightarrow> string \<Rightarrow> nat \<Rightarrow> bool" where
  "between lo hi s i = (i < length s \<and> lo \<le> byte (s ! i) \<and> byte (s ! i) \<le> hi)"

text \<open>The number of bytes of the well-formed UTF-8 encoding at the head of the string,
  as \<^verbatim>\<open>utf8.DecodeRuneInString\<close> finds it (no overlong forms, no surrogates, nothing
  above U+10FFFF), and 0 when the first byte starts none.\<close>

definition rune_width :: "string \<Rightarrow> nat" where
  "rune_width s =
     (if s = [] then 0
      else let n = byte (s ! 0) in
      if n < 0x80 then 1
      else if 0xC2 \<le> n \<and> n \<le> 0xDF then
        (if between 0x80 0xBF s 1 then 2 else 0)
      else if n = 0xE0 then
        (if between 0xA0 0xBF s 1 \<and> between 0x80 0xBF s 2 then 3 else 0)
      else if (0xE1 \<le> n \<and> n \<le> 0xEC) \<or> n = 0xEE \<or> n = 0xEF then
        (if between 0x80 0xBF s 1 \<and> between 0x80 0xBF s 2 then 3 else 0)
      else if n = 0xED then
        (if between 0x80 0x9F s 1 \<and> between 0x80 0xBF s 2 then 3 else 0)
      else if n = 0xF0 then
        (if between 0x90 0xBF s 1 \<and> between 0x80 0xBF s 2 \<and> between 0x80 0xBF s 3
         then 4 else 0)
      else if 0xF1 \<le> n \<and> n \<le> 0xF3 then
        (if between 0x80 0xBF s 1 \<and> between 0x80 0xBF s 2 \<and> between 0x80 0xBF s 3
         then 4 else 0)
      else if n = 0xF4 then
        (if between 0x80 0x8F s 1 \<and> between 0x80 0xBF s 2 \<and> between 0x80 0xBF s 3
         then 4 else 0)
      else 0)"

text \<open>The encoding of U+FFFD, the rune that stands for a byte out of place.\<close>

definition RuneError :: string where
  "RuneError = [CHR 0xEF, CHR 0xBF, CHR 0xBD]"

text \<open>The runes of a string, as the range over a string and the conversion to
  \<^verbatim>\<open>[]rune\<close> give them. A rune is kept as its UTF-8 encoding, which is what
  \<^verbatim>\<open>string(chars)\<close> writes for it.\<close>

function runes :: "string \<Rightarrow> string list" where
  "runes s =
     (if s = [] then []
      else if rune_width s = 0 then RuneError # runes (drop 1 s)
      else take (rune_width s) s # runes (drop (rune_width s) s))"
  by pat_completeness auto
termination
  by (relation "measure length") auto

declare runes.simps [simp del]

text \<open>\<^verbatim>\<open>string([]rune(s))\<close>.\<close>

definition through_runes :: "string \<Rightarrow> string" where
  "through_runes s = concat (runes s)"

subsection \<open>The brace tokenizer (lines 189 to 344)\<close>

text \<open>The loop over the runes of a value (lines 201 to 243), with the variables
  \<open>previous\<close>, \<open>parts\<close> and \<open>chars\<close> of the source; \<open>chars\<close> is kept as the string
  that \<^verbatim>\<open>string(chars)\<close> gives.\<close>

definition flush :: "string list \<Rightarrow> string \<Rightarrow> string list \<times> string" where
  "flush parts chars = (if length chars > 0 then (parts @ [chars], []) else (parts, chars))"

fun scan :: "string \<Rightarrow> string list \<Rightarrow> string \<Rightarrow> string list \<Rightarrow> string list" where
  "scan previous parts chars [] = fst (flush parts chars)"
| "scan previous parts chars (current # rest) =
     (let (parts1, chars1) =
            (if previous \<noteq> ''{'' \<and> current = ''{'' then flush parts chars
             else (parts, chars));
          (parts2, chars2) =
            (if previous = ''}'' \<and> current \<noteq> ''}'' then flush parts1 chars1
             else (parts1, chars1))
      in scan current parts2 (chars2 @ current) rest)"

definition split_parts :: "string \<Rightarrow> string list" where
  "split_parts v = scan [CHR 0x00] [] [] (runes v)"

text \<open>The map \<open>temp\<close> of the source, from the key of a payload to the positions of the
  variables in its value, in the order in which the keys were entered.\<close>

type_synonym temp = "(string \<times> (nat \<times> nat) list) list"

definition temp_append :: "temp \<Rightarrow> string \<Rightarrow> nat \<times> nat \<Rightarrow> temp" where
  "temp_append temp k pos =
     (if k \<in> fst ` set temp
      then map (\<lambda>(k', ps). if k' = k then (k', ps @ [pos]) else (k', ps)) temp
      else temp @ [(k, [pos])])"

text \<open>The loop over the parts (lines 249 to 343); \<open>n\<close> is \<^verbatim>\<open>len(parts)\<close>, \<open>i\<close> the
  index of the part and \<open>stop\<close> the variable \<^verbatim>\<open>end\<close> of the source.\<close>

fun check_parts ::
  "string \<Rightarrow> payload \<Rightarrow> nat \<Rightarrow> nat \<Rightarrow> nat \<Rightarrow> string list \<Rightarrow> temp \<Rightarrow> error + temp" where
  "check_parts filename payload n i offset [] temp = Inr temp"
| "check_parts filename payload n i offset (part # rest) temp =
     (let opening = Count part (CHR ''{'');
          closing = Count part (CHR ''}'');
          evenOpening = (opening mod 2 = 0);
          evenClosing = (closing mod 2 = 0)
      in
      if \<not> evenOpening \<and> evenClosing \<and> opening > closing then
        (if i = n - 1 \<and> part = ''{'' then Inl (ExcessOpeningAtEnd filename (Line payload))
         else Inl (NoClosingBrace filename (Line payload)))
      else if \<not> evenOpening \<and> evenClosing \<and> opening < closing then
        Inl (ExcessClosing filename (Line payload))
      else if evenOpening \<and> \<not> evenClosing \<and> opening > closing then
        Inl (ExcessOpening filename (Line payload))
      else if evenOpening \<and> \<not> evenClosing \<and> opening < closing then
        (if i = 0 \<and> part = ''}'' then Inl (ExcessClosingAtBeginning filename (Line payload))
         else Inl (NoOpeningBrace filename (Line payload)))
      else if \<not> evenOpening \<and> \<not> evenClosing then
        (let start = offset + opening;
             stop = offset + (length part - closing)
         in
         if stop < start \<or> length (Value payload) < stop then Inl Panic
         else let variable = TrimSpace (slice (Value payload) start stop) in
         if length variable = 0 then Inl (VariableNameEmpty filename (Line payload))
         else if Key payload = variable then
           Inl (UsedRecursively filename (Line payload) (Key payload))
         else check_parts filename payload n (Suc i) (offset + length part) rest
                (temp_append temp (Key payload) (start, stop)))
      else check_parts filename payload n (Suc i) (offset + length part) rest temp)"

definition tokenize_payload :: "string \<Rightarrow> payload \<Rightarrow> temp \<Rightarrow> error + temp" where
  "tokenize_payload filename payload temp =
     (let parts = split_parts (Value payload)
      in check_parts filename payload (length parts) 0 0 parts temp)"

fun tokenize :: "string \<Rightarrow> payload list \<Rightarrow> temp \<Rightarrow> error + temp" where
  "tokenize filename [] temp = Inr temp"
| "tokenize filename (payload # rest) temp =
     (case tokenize_payload filename payload temp of
        Inl e \<Rightarrow> Inl e
      | Inr temp' \<Rightarrow> tokenize filename rest temp')"

subsection \<open>The substitution (lines 347 to 431)\<close>

text \<open>The search of lines 386 to 397: the value of the first payload with the key.\<close>

fun find_value :: "payload list \<Rightarrow> string \<Rightarrow> string option" where
  "find_value [] variable = None"
| "find_value (payload # rest) variable =
     (if Key payload = variable then Some (Value payload) else find_value rest variable)"

text \<open>One position (lines 364 to 424): the new value of the payload, whose line is
  \<open>line\<close> and whose value is \<open>v\<close> now. The three slice expressions of the source
  (lines 374, 380 and 421) panic out of range; the value is put together from runes.\<close>

definition replace_at ::
  "string \<Rightarrow> env \<Rightarrow> payload list \<Rightarrow> nat \<Rightarrow> string \<Rightarrow> nat \<times> nat \<Rightarrow> error + string" where
  "replace_at filename env payloads line v position =
     (let start = fst position;
          stop = snd position
      in
      if stop < start \<or> length v < stop then Inl Panic
      else let variable = TrimSpace (slice v start stop) in
      if start = 0 \<or> length v < start - 1 then Inl Panic
      else let before = through_runes (slice v 0 (start - 1)) in
      case find_value payloads variable of
        None \<Rightarrow>
          (case env variable of
             None \<Rightarrow> Inl (DoesNotExist filename line variable)
           | Some value \<Rightarrow>
               if length v < stop + 1 then Inl Panic
               else Inr (before @ through_runes value @ through_runes (drop (stop + 1) v)))
      | Some value \<Rightarrow>
          if length v < stop + 1 then Inl Panic
          else Inr (before @ through_runes value @ through_runes (drop (stop + 1) v)))"

text \<open>The positions of one payload, taken in the order given (the source goes from the
  last position to the first).\<close>

fun replace_positions ::
  "string \<Rightarrow> env \<Rightarrow> payload list \<Rightarrow> nat \<Rightarrow> string \<Rightarrow> (nat \<times> nat) list \<Rightarrow> error + string" where
  "replace_positions filename env payloads line v [] = Inr v"
| "replace_positions filename env payloads line v (position # rest) =
     (case replace_at filename env payloads line v position of
        Inl e \<Rightarrow> Inl e
      | Inr v' \<Rightarrow> replace_positions filename env payloads line v' rest)"

text \<open>The loop over the payloads for one key of \<open>temp\<close> (lines 353 to 430): \<open>done\<close> are
  the payloads before index \<open>i\<close>, already written back, and the list of all payloads is
  \<open>done\<close> followed by the payloads still to visit.\<close>

fun subst_loop ::
  "string \<Rightarrow> env \<Rightarrow> string \<Rightarrow> (nat \<times> nat) list \<Rightarrow> payload list \<Rightarrow> payload list
     \<Rightarrow> error + payload list" where
  "subst_loop filename env variable positions done [] = Inr done"
| "subst_loop filename env variable positions done (payload # rest) =
     (if Key payload = variable then
        (case replace_positions filename env (done @ payload # rest) (Line payload)
                (Value payload) (rev positions) of
           Inl e \<Rightarrow> Inl e
         | Inr v \<Rightarrow>
             subst_loop filename env variable positions (done @ [payload\<lparr>Value := v\<rparr>]) rest)
      else subst_loop filename env variable positions (done @ [payload]) rest)"

text \<open>The loop over the map (lines 350 to 431). Go visits the keys of a map in an order
  that it does not fix: \<open>order\<close> is the order taken.\<close>

fun substitute ::
  "string \<Rightarrow> env \<Rightarrow> temp \<Rightarrow> string list \<Rightarrow> payload list \<Rightarrow> error + payload list" where
  "substitute filename env temp [] payloads = Inr payloads"
| "substitute filename env temp (variable # order) payloads =
     (case map_of temp variable of
        None \<Rightarrow> substitute filename env temp order payloads
      | Some positions \<Rightarrow>
          (case subst_loop filename env variable positions [] payloads of
             Inl e \<Rightarrow> Inl e
           | Inr payloads' \<Rightarrow> substitute filename env temp order payloads'))"

text \<open>A schedule gives, for the number of the pass and the keys of \<open>temp\<close>, the order in
  which the pass visits them. Every order is a permutation of the keys.\<close>

type_synonym schedule = "nat \<Rightarrow> string list \<Rightarrow> string list"

definition map_order :: "schedule \<Rightarrow> bool" where
  "map_order sched = (\<forall>n ks. mset (sched n ks) = mset ks)"

text \<open>The loop of lines 183 to 438. It has no bound: \<open>None\<close> is the loop that never
  ends.\<close>

partial_function (option) resolve ::
  "schedule \<Rightarrow> nat \<Rightarrow> string \<Rightarrow> env \<Rightarrow> payload list \<Rightarrow> (error + payload list) option" where
  "resolve sched n filename env payloads =
     (case tokenize filename payloads [] of
        Inl e \<Rightarrow> Some (Inl e)
      | Inr temp \<Rightarrow>
          if length temp > 0 then
            (case substitute filename env temp (sched n (map fst temp)) payloads of
               Inl e \<Rightarrow> Some (Inl e)
             | Inr payloads' \<Rightarrow> resolve sched (Suc n) filename env payloads')
          else Some (Inr payloads))"

subsection \<open>Parse and Load\<close>

definition Parse :: "files \<Rightarrow> schedule \<Rightarrow> env \<Rightarrow> string \<Rightarrow> (error + payload list) option" where
  "Parse fs sched env filename =
     (case fs filename of
        None \<Rightarrow> Some (Inl (OpenError filename))
      | Some lines \<Rightarrow>
          (case parse_lines filename 0 lines [] of
             Inl e \<Rightarrow> Some (Inl e)
           | Inr payloads \<Rightarrow>
               (case resolve sched 0 filename env payloads of
                  None \<Rightarrow> None
                | Some (Inl e) \<Rightarrow> Some (Inl e)
                | Some (Inr payloads') \<Rightarrow> Some (Inr (map escape_payload payloads')))))"

text \<open>\<^verbatim>\<open>os.LookupEnv\<close> and \<^verbatim>\<open>os.Setenv\<close>. Whether the system accepts a write is
  not decided in this package: \<open>writable\<close> says which writes succeed.\<close>

definition LookupEnv :: "env \<Rightarrow> string \<Rightarrow> string \<times> bool" where
  "LookupEnv env k = (case env k of None \<Rightarrow> ([], False) | Some v \<Rightarrow> (v, True))"

definition Setenv :: "(string \<Rightarrow> string \<Rightarrow> bool) \<Rightarrow> env \<Rightarrow> string \<Rightarrow> string \<Rightarrow> env option" where
  "Setenv writable env k v = (if writable k v then Some (env(k \<mapsto> v)) else None)"

text \<open>The body of the loop over the payloads (lines 62 to 77).\<close>

definition load_payload ::
  "string \<Rightarrow> (string \<Rightarrow> string \<Rightarrow> bool) \<Rightarrow> env \<Rightarrow> payload \<Rightarrow> error + env" where
  "load_payload filename writable env payload =
     (if Export payload \<or> Overload payload then
        (let (value, ok) = LookupEnv env (Key payload) in
         if \<not> ok \<or> Overload payload then
           (if Value payload = value then Inr env
            else (case Setenv writable env (Key payload) (Value payload) of
                    None \<Rightarrow> Inl (SetenvError filename)
                  | Some env' \<Rightarrow> Inr env'))
         else Inr env)
      else Inr env)"

text \<open>The loops of Load return the error, if any, and the environment they leave.\<close>

fun load_payloads ::
  "string \<Rightarrow> (string \<Rightarrow> string \<Rightarrow> bool) \<Rightarrow> env \<Rightarrow> payload list \<Rightarrow> error option \<times> env" where
  "load_payloads filename writable env [] = (None, env)"
| "load_payloads filename writable env (payload # rest) =
     (case load_payload filename writable env payload of
        Inl e \<Rightarrow> (Some e, env)
      | Inr env' \<Rightarrow> load_payloads filename writable env' rest)"

text \<open>The loop over the file names; \<open>scheds i\<close> is the schedule of the maps while the
  file number \<open>i\<close> is parsed.\<close>

fun load_files ::
  "files \<Rightarrow> (nat \<Rightarrow> schedule) \<Rightarrow> (string \<Rightarrow> string \<Rightarrow> bool) \<Rightarrow> nat \<Rightarrow> env \<Rightarrow> string list
     \<Rightarrow> (error option \<times> env) option" where
  "load_files fs scheds writable i env [] = Some (None, env)"
| "load_files fs scheds writable i env (filename # rest) =
     (case Parse fs (scheds i) env filename of
        None \<Rightarrow> None
      | Some (Inl e) \<Rightarrow> Some (Some e, env)
      | Some (Inr payloads) \<Rightarrow>
          (case load_payloads filename writable env payloads of
             (Some e, env') \<Rightarrow> Some (Some e, env')
           | (None, env') \<Rightarrow> load_files fs scheds writable (Suc i) env' rest))"

definition Load ::
  "files \<Rightarrow> (nat \<Rightarrow> schedule) \<Rightarrow> (string \<Rightarrow> string \<Rightarrow> bool) \<Rightarrow> env \<Rightarrow> string list
     \<Rightarrow> (error option \<times> env) option" where
  "Load fs scheds writable env filenames =
     load_files fs scheds writable 0 env
       (if length filenames = 0 then filenames @ [''.envfile''] else filenames)"

subsection \<open>Values that the escape processor leaves alone\<close>

text \<open>No two opening braces, no two closing braces and no backslash before \<open>n\<close>,
  \<open>t\<close> or a backslash stand side by side.\<close>

fun settled :: "string \<Rightarrow> bool" where
  "settled (b # c # rest) =
     (\<not> (b = CHR ''{'' \<and> c = CHR ''{'') \<and> \<not> (b = CHR ''}'' \<and> c = CHR ''}'') \<and>
      \<not> (b = backslash \<and> (c = CHR ''n'' \<or> c = CHR ''t'' \<or> c = backslash)) \<and>
      settled (c # rest))"
| "settled s = True"

subsection \<open>Lines, schedules and the code equation of the loop\<close>

text \<open>A line that the scanner loop skips (line 115): blank after trimming, or a
  comment.\<close>

definition ignored_line :: "string \<Rightarrow> bool" where
  "ignored_line text = (length (TrimSpace text) = 0 \<or> HasPrefix (TrimSpace text) ''#'')"

text \<open>Lines that the scanner loop skips: an empty line, two comments, a line of
  spaces, a line that is a no-break space (\<open>U+00A0\<close>) and a line of an ideographic
  space (\<open>U+3000\<close>) and a tab.\<close>

definition blank_lines :: "string list" where
  "blank_lines = ['''', ''  # a comment'', ''#b=1'', ''   '', [CHR 0xC2, CHR 0xA0],
     [CHR 0xE3, CHR 0x80, CHR 0x80, CHR 0x09]]"

text \<open>Two schedules: the keys in the order of the payloads, and in the opposite order.\<close>

definition in_order :: schedule where
  "in_order n ks = ks"

definition backwards :: schedule where
  "backwards n ks = rev ks"

declare resolve.simps [code]

text \<open>The payloads without their values: what the resolver and the escape processor
  never change.\<close>

definition skeleton :: "payload list \<Rightarrow> payload list" where
  "skeleton ps = map (\<lambda>p. p\<lparr>Value := []\<rparr>) ps"

text \<open>A system that accepts every write, and one that refuses the value \<open>bad\<close>.\<close>

definition all_writable :: "string \<Rightarrow> string \<Rightarrow> bool" where
  "all_writable k v = True"

definition not_bad :: "string \<Rightarrow> string \<Rightarrow> bool" where
  "not_bad k v = (v \<noteq> ''bad'')"

text \<open>Files and environments for the examples.\<close>

definition port_file :: files where
  "port_file = [''f'' \<mapsto> [''overload PORT = 3000'', ''export HOME = /srv'', ''export EMPTY ='']]"

definition port_env :: env where
  "port_env = [''PORT'' \<mapsto> ''8080'', ''HOME'' \<mapsto> ''/root'']"

definition three_files :: files where
  "three_files = [''a'' \<mapsto> [''export A = 1''],
                  ''b'' \<mapsto> [''export B = ok'', ''export C = bad''],
                  ''c'' \<mapsto> [''foo'']]"

definition chain_file :: files where
  "chain_file = [''f'' \<mapsto> [''A = foo'', ''B = { A }bar'', ''C = { B }baz'']]"

definition cycle_file :: files where
  "cycle_file = [''f'' \<mapsto> [''A = { B }'', ''B = { A }'']]"

text \<open>The payloads of the chain \<open>A\<close>, \<open>B\<close>, \<open>C\<close>: as parsed, after a pass that visits
  \<open>C\<close> before \<open>B\<close>, and resolved.\<close>

definition chain_start :: "payload list" where
  "chain_start =
     [\<lparr>Line = 1, Export = False, Overload = False, Key = ''A'', Value = ''foo''\<rparr>,
      \<lparr>Line = 2, Export = False, Overload = False, Key = ''B'', Value = ''{ A }bar''\<rparr>,
      \<lparr>Line = 3, Export = False, Overload = False, Key = ''C'', Value = ''{ B }baz''\<rparr>]"

definition chain_half :: "payload list" where
  "chain_half =
     [\<lparr>Line = 1, Export = False, Overload = False, Key = ''A'', Value = ''foo''\<rparr>,
      \<lparr>Line = 2, Export = False, Overload = False, Key = ''B'', Value = ''foobar''\<rparr>,
      \<lparr>Line = 3, Export = False, Overload = False, Key = ''C'', Value = ''{ A }barbaz''\<rparr>]"

definition chain_final :: "payload list" where
  "chain_final =
     [\<lparr>Line = 1, Export = False, Overload = False, Key = ''A'', Value = ''foo''\<rparr>,
      \<lparr>Line = 2, Export = False, Overload = False, Key = ''B'', Value = ''foobar''\<rparr>,
      \<lparr>Line = 3, Export = False, Overload = False, Key = ''C'', Value = ''foobarbaz''\<rparr>]"

text \<open>The payloads of the cycle of \<open>A\<close> and \<open>B\<close>: as parsed, after a pass that visits
  \<open>A\<close> first, and after a pass that visits \<open>B\<close> first.\<close>

definition cycle_start :: "payload list" where
  "cycle_start =
     [\<lparr>Line = 1, Export = False, Overload = False, Key = ''A'', Value = ''{ B }''\<rparr>,
      \<lparr>Line = 2, Export = False, Overload = False, Key = ''B'', Value = ''{ A }''\<rparr>]"

definition cycle_AB :: "payload list" where
  "cycle_AB =
     [\<lparr>Line = 1, Export = False, Overload = False, Key = ''A'', Value = ''{ A }''\<rparr>,
      \<lparr>Line = 2, Export = False, Overload = False, Key = ''B'', Value = ''{ A }''\<rparr>]"

definition cycle_BA :: "payload list" where
  "cycle_BA =
     [\<lparr>Line = 1, Export = False, Overload = False, Key = ''A'', Value = ''{ B }''\<rparr>,
      \<lparr>Line = 2, Export = False, Overload = False, Key = ''B'', Value = ''{ B }''\<rparr>]"

subsection \<open>References in a value\<close>

text \<open>A part of a value is a reference when it has an odd number of opening braces and
  an odd number of closing braces (lines 308 to 317). The braces of a part stand at its
  two ends, and the name of the reference is the text between them, trimmed.\<close>

definition is_reference :: "string \<Rightarrow> bool" where
  "is_reference part = (Count part (CHR ''{'') mod 2 \<noteq> 0 \<and> Count part (CHR ''}'') mod 2 \<noteq> 0)"

definition reference_name :: "string \<Rightarrow> string" where
  "reference_name part =
     TrimSpace (slice part (Count part (CHR ''{'')) (length part - Count part (CHR ''}'')))"

text \<open>The value \<open>v\<close> holds a reference to the name.\<close>

definition refers_to :: "string \<Rightarrow> string \<Rightarrow> bool" where
  "refers_to v name =
     list_ex (\<lambda>part. is_reference part \<and> reference_name part = name) (split_parts v)"

subsection \<open>A cycle of two entries that never resolves\<close>

text \<open>The entry \<open>A\<close> refers to \<open>B\<close> and the entry \<open>B\<close> refers to \<open>A\<close>; the ambient
  environment gives \<open>O\<close> an opening brace, \<open>X\<close> a closing brace and \<open>V\<close> a reference
  to \<open>V\<close>.\<close>

definition two_file :: files where
  "two_file = [''f'' \<mapsto> [''A = { O }{ B }{ X }{ V }'', ''B = { A }'']]"

definition two_env :: env where
  "two_env = [''O'' \<mapsto> ''{'', ''X'' \<mapsto> ''}'', ''V'' \<mapsto> ''{ V }'']"

definition two_start :: "payload list" where
  "two_start =
     [\<lparr>Line = 1, Export = False, Overload = False, Key = ''A'',
        Value = ''{ O }{ B }{ X }{ V }''\<rparr>,
      \<lparr>Line = 2, Export = False, Overload = False, Key = ''B'', Value = ''{ A }''\<rparr>]"

definition two_temp :: temp where
  "two_temp = [(''A'', [(1, 4), (6, 9), (11, 14), (16, 19)]), (''B'', [(1, 4)])]"

text \<open>The payloads after a first pass that visits \<open>A\<close> before \<open>B\<close>, and the map of
  every later pass.\<close>

definition two_loop :: "payload list" where
  "two_loop =
     [\<lparr>Line = 1, Export = False, Overload = False, Key = ''A'', Value = ''{{ A }}{ V }''\<rparr>,
      \<lparr>Line = 2, Export = False, Overload = False, Key = ''B'', Value = ''{{ A }}{ V }''\<rparr>]"

definition loop_temp :: temp where
  "loop_temp = [(''A'', [(8, 11)]), (''B'', [(8, 11)])]"

subsection \<open>A write that the system refuses\<close>





subsection \<open>A byte that is no UTF-8\<close>

definition stray_file :: files where
  "stray_file = [''f'' \<mapsto> [''A = '' @ [CHR 0xFF] @ ''{ A }bcd'']]"

definition stray_end_file :: files where
  "stray_end_file = [''f'' \<mapsto> [''A = '' @ [CHR 0xFF] @ ''{ A }'']]"

section \<open>The escape processor\<close>

lemma ReplaceAll_Nil: "old \<noteq> [] \<Longrightarrow> ReplaceAll [] old new = []"
  by (simp add: ReplaceAll.simps)

lemma ReplaceAll_Cons2:
  "ReplaceAll (b # r) [x, y] new =
     (if take 2 (b # r) = [x, y] then new @ ReplaceAll (drop 2 (b # r)) [x, y] new
      else b # ReplaceAll r [x, y] new)"
  by (subst ReplaceAll.simps) simp

lemma ReplaceAll_open_id: "settled w \<Longrightarrow> ReplaceAll w ''{{'' ''{'' = w"
proof (induction w rule: settled.induct)
  case (1 b c rest)
  from "1.prems" have ne: "[b, c] \<noteq> ''{{''" and s: "settled (c # rest)"
    by auto
  from ne have "ReplaceAll (b # c # rest) ''{{'' ''{'' = b # ReplaceAll (c # rest) ''{{'' ''{''"
    by (subst ReplaceAll_Cons2) auto
  with "1.IH" [OF s] show ?case by simp
qed (simp_all add: ReplaceAll_Cons2 ReplaceAll_Nil)

lemma ReplaceAll_close_id: "settled w \<Longrightarrow> ReplaceAll w ''}}'' ''}'' = w"
proof (induction w rule: settled.induct)
  case (1 b c rest)
  from "1.prems" have ne: "[b, c] \<noteq> ''}}''" and s: "settled (c # rest)"
    by auto
  from ne have "ReplaceAll (b # c # rest) ''}}'' ''}'' = b # ReplaceAll (c # rest) ''}}'' ''}''"
    by (subst ReplaceAll_Cons2) auto
  with "1.IH" [OF s] show ?case by simp
qed (simp_all add: ReplaceAll_Cons2 ReplaceAll_Nil)

lemma unescape_match_other:
  "c \<noteq> CHR ''n'' \<Longrightarrow> c \<noteq> CHR ''t'' \<Longrightarrow> c \<noteq> backslash \<Longrightarrow>
   unescape_match [backslash, c] = [backslash, c]"
  by (simp add: unescape_match_def HasPrefix_def)

lemma unescape_id: "settled w \<Longrightarrow> unescape w = w"
proof (induction w rule: unescape.induct)
  case (1 b c rest)
  show ?case
  proof (cases "b = backslash \<and> c \<noteq> newline")
    case True
    with 1 have "settled rest" by (cases rest) auto
    with 1 True show ?thesis by (simp add: unescape_match_other)
  next
    case False
    with 1 show ?thesis by auto
  qed
qed simp_all

lemma escape_value_settled: "settled w \<Longrightarrow> escape_value w = w"
  by (simp add: escape_value_def ReplaceAll_open_id ReplaceAll_close_id unescape_id)

text \<open>
  Claim C3, as stated: the escape step, applied to its own result, gives that result
  again. It does not: the value of four opening braces becomes two opening braces, and
  these become one.
\<close>

theorem escape_twice_differs:
  "escape_value (escape_value ''{{{{'') \<noteq> escape_value ''{{{{''"
  by code_simp

text \<open>
  Claim C3, amended: for every value \<open>v\<close> whose escaped form holds no doubled opening
  brace, no doubled closing brace and no backslash followed by \<open>n\<close>, \<open>t\<close> or a
  backslash, the escape step applied to the escaped form gives the escaped form again.
\<close>

theorem escape_idempotent_on_settled:
  "settled (escape_value v) \<Longrightarrow> escape_value (escape_value v) = escape_value v"
  by (rule escape_value_settled)

theorem escape_idempotent_on_settled_witness:
  "settled (escape_value ''{{literal}}'') \<and>
   escape_value (escape_value ''{{literal}}'') = escape_value ''{{literal}}''"
proof -
  have s: "settled (escape_value ''{{literal}}'')" by code_simp
  from s escape_idempotent_on_settled [OF s] show ?thesis by simp
qed

section \<open>The line parser\<close>

lemma parse_line_ignored:
  "ignored_line text \<Longrightarrow> parse_line filename line text payloads = Inr payloads"
  by (simp add: parse_line_def ignored_line_def)

lemma parse_lines_ignored:
  "list_all ignored_line lines \<Longrightarrow> parse_lines filename line lines payloads = Inr payloads"
  by (induction lines arbitrary: line) (simp_all add: parse_line_ignored)

lemma resolve_Nil: "resolve sched n filename env [] = Some (Inr [])"
  by (subst resolve.simps) simp

text \<open>
  Claim C7, as stated: a file in which every line is blank, a comment or without an
  equal sign gives the empty entry set and no error. A line without an equal sign that
  is neither blank nor a comment is refused instead (line 123 of the source).
\<close>

theorem line_without_equal_sign_is_refused:
  "Parse [''f'' \<mapsto> [''foo'']] in_order Map.empty ''f'' = Some (Inl (CantSplitLine ''f'' 1))"
  by code_simp

text \<open>
  Claim C7, amended: for every file that can be opened and in which every line is blank
  after trimming (of the white space of Unicode, as \<^verbatim>\<open>strings.TrimSpace\<close> does) or is
  a comment starting with \<open>#\<close>, Parse returns the empty entry set and no error.
\<close>

theorem blank_and_comment_lines_give_no_entries:
  assumes "fs filename = Some lines" and "list_all ignored_line lines"
  shows "Parse fs sched env filename = Some (Inr [])"
  using assms by (simp add: Parse_def parse_lines_ignored resolve_Nil)

theorem blank_and_comment_lines_give_no_entries_witness:
  "[''f'' \<mapsto> blank_lines] ''f'' = Some blank_lines \<and>
   list_all ignored_line blank_lines \<and>
   Parse [''f'' \<mapsto> blank_lines] in_order Map.empty ''f'' = Some (Inr [])"
proof -
  have a: "[''f'' \<mapsto> blank_lines] ''f'' = Some blank_lines"
    by simp
  have b: "list_all ignored_line blank_lines"
    by code_simp
  from a b blank_and_comment_lines_give_no_entries
    [where fs = "[''f'' \<mapsto> blank_lines]"
       and filename = "''f''" and sched = in_order and env = Map.empty, OF a b]
  show ?thesis by blast
qed

subsection \<open>The directives\<close>

lemma trim_left_id:
  assumes "s \<noteq> []" and "\<forall>w \<in> set encodings. w \<noteq> [] \<longrightarrow> hd w \<noteq> hd s"
  shows "trim_left encodings s = s"
proof -
  have "\<not> (w \<noteq> [] \<and> HasPrefix s w)" if "w \<in> set encodings" for w
  proof
    assume a: "w \<noteq> [] \<and> HasPrefix s w"
    then have "take (length w) s = w" by (simp add: HasPrefix_def)
    with a assms(1) have "hd w = hd s" by (metis hd_take length_greater_0_conv)
    with assms(2) that a show False by blast
  qed
  then have "find (\<lambda>w. w \<noteq> [] \<and> HasPrefix s w) encodings = None"
    by (simp add: find_None_iff)
  then show ?thesis by (subst trim_left.simps) simp
qed

lemma TrimSpace_id:
  assumes "s \<noteq> []" and "hd s \<notin> hd ` set space_encodings"
    and "last s \<notin> last ` set space_encodings"
  shows "TrimSpace s = s"
proof -
  have "\<forall>w \<in> set space_encodings. w \<noteq> [] \<longrightarrow> hd w \<noteq> hd s"
    using assms(2) by (metis image_eqI)
  with assms(1) have 1: "trim_left space_encodings s = s"
    by (rule trim_left_id)
  have "hd (rev w) \<noteq> hd (rev s)" if "w \<in> set space_encodings" for w
  proof -
    from that assms(3) have "last w \<noteq> last s" by (metis image_eqI)
    then show ?thesis by (simp add: hd_rev)
  qed
  then have "\<forall>w \<in> set (map rev space_encodings). w \<noteq> [] \<longrightarrow> hd w \<noteq> hd (rev s)"
    by auto
  with assms(1) have 2: "trim_left (map rev space_encodings) (rev s) = rev s"
    by (intro trim_left_id) auto
  show ?thesis by (simp add: TrimSpace_def 1 2)
qed

lemma key_chars_not_space:
  "list_all (\<lambda>c. c \<notin> set (map hd space_encodings) \<and> c \<notin> set (map last space_encodings))
     ''ABCDEFGHIJKLMNOPQRSTUVWXYZabcdefghijklmnopqrstuvwxyz0123456789_''"
  by code_simp

lemma valid_key_char_not_space:
  "valid_key_char c \<Longrightarrow> c \<notin> hd ` set space_encodings \<and> c \<notin> last ` set space_encodings"
  using key_chars_not_space by (auto simp: valid_key_char_def list_all_iff)

lemma validation_TrimSpace: "validation k \<Longrightarrow> TrimSpace k = k"
proof -
  assume v: "validation k"
  then have ne: "k \<noteq> []" and all: "\<forall>c \<in> set k. valid_key_char c"
    by (auto simp: validation_def list_all_iff)
  from ne all have "valid_key_char (hd k)" "valid_key_char (last k)" by auto
  with ne show ?thesis by (intro TrimSpace_id) (auto dest: valid_key_char_not_space)
qed

lemma lower_char_firsts: "list_all (\<lambda>c. lower_char c = c) (map hd space_encodings)"
  by code_simp

lemma lower_char_space: "c \<in> hd ` set space_encodings \<Longrightarrow> lower_char c = c"
  using lower_char_firsts by (auto simp: list_all_iff)

lemma ToLower_Cons_eq:
  "ToLower s = c # cs \<longleftrightarrow> (\<exists>x xs. s = x # xs \<and> lower_char x = c \<and> ToLower xs = cs)"
  by (cases s) (auto simp: ToLower_def)

lemma ToLower_Nil_eq: "ToLower s = [] \<longleftrightarrow> s = []"
  by (simp add: ToLower_def)

lemma lower_not_space:
  "lower_char x = c \<Longrightarrow> c \<notin> hd ` set space_encodings \<Longrightarrow> x \<notin> hd ` set space_encodings"
  using lower_char_space by auto

lemma letter_e_no_space: "CHR ''e'' \<notin> hd ` set space_encodings"
proof -
  have "CHR ''e'' \<notin> set (map hd space_encodings)" by code_simp
  then show ?thesis by simp
qed

lemma letter_o_no_space: "CHR ''o'' \<notin> hd ` set space_encodings"
proof -
  have "CHR ''o'' \<notin> set (map hd space_encodings)" by code_simp
  then show ?thesis by simp
qed

lemma ToLower_export:
  assumes "ToLower d = ''export''"
  shows "length d = 6 \<and> hd d \<notin> hd ` set space_encodings"
proof -
  from assms obtain x xs where d: "d = x # xs" and x: "lower_char x = CHR ''e''"
    by (auto simp: ToLower_Cons_eq)
  from x letter_e_no_space have "x \<notin> hd ` set space_encodings" by (rule lower_not_space)
  moreover from assms have "length (ToLower d) = 6" by simp
  ultimately show ?thesis using d by (simp add: ToLower_def)
qed

lemma ToLower_overload:
  assumes "ToLower d = ''overload''"
  shows "length d = 8 \<and> hd d \<notin> hd ` set space_encodings"
proof -
  from assms obtain x xs where d: "d = x # xs" and x: "lower_char x = CHR ''o''"
    by (auto simp: ToLower_Cons_eq)
  from x letter_o_no_space have "x \<notin> hd ` set space_encodings" by (rule lower_not_space)
  moreover from assms have "length (ToLower d) = 8" by simp
  ultimately show ?thesis using d by (simp add: ToLower_def)
qed

lemma TrimSpace_token:
  assumes "d \<noteq> []" "hd d \<notin> hd ` set space_encodings" "validation rest"
  shows "TrimSpace (d @ rest) = d @ rest"
proof -
  from assms(3) have ne: "rest \<noteq> []" and "valid_key_char (last rest)"
    by (auto simp: validation_def list_all_iff)
  then have "last (d @ rest) \<notin> last ` set space_encodings"
    by (simp add: valid_key_char_not_space)
  moreover from assms have "hd (d @ rest) \<notin> hd ` set space_encodings" by simp
  ultimately show ?thesis using assms(1) by (intro TrimSpace_id) auto
qed

lemma length_export: "length ''export'' = 6"
  by simp

lemma length_overload: "length ''overload'' = 8"
  by simp

lemma export_token:
  assumes d: "ToLower d = ''export''" and rest: "validation rest"
    and no: "\<not> HasPrefix (ToLower rest) ''overload''"
  shows "parse_key (d @ rest) = (True, False, rest)"
proof -
  from d have l: "length d = 6" and h: "hd d \<notin> hd ` set space_encodings"
    using ToLower_export by auto
  then have t: "TrimSpace (d @ rest) = d @ rest" using rest by (intro TrimSpace_token) auto
  have "take 6 (ToLower (d @ rest)) = ToLower d"
    using l by (simp add: ToLower_def)
  then have p: "HasPrefix (ToLower (d @ rest)) ''export''"
    unfolding HasPrefix_def length_export d .
  have dr: "drop 6 (d @ rest) = rest" using l by simp
  have e: "export_directive (d @ rest) = (True, rest)"
    by (simp only: export_directive_def p if_True dr validation_TrimSpace [OF rest])
  have o: "overload_directive rest = (False, rest)"
    by (simp only: overload_directive_def no if_False)
  show ?thesis by (simp only: parse_key_def t e o Let_def prod.case)
qed

lemma overload_token:
  assumes d: "ToLower d = ''overload''" and rest: "validation rest"
  shows "parse_key (d @ rest) = (False, True, rest)"
proof -
  from d have l: "length d = 8" and h: "hd d \<notin> hd ` set space_encodings"
    using ToLower_overload by auto
  then have t: "TrimSpace (d @ rest) = d @ rest" using rest by (intro TrimSpace_token) auto
  have "take 6 (ToLower (d @ rest)) = take 6 (ToLower d)"
    using l by (simp add: ToLower_def)
  also have "\<dots> = ''overlo''" unfolding d by simp
  finally have "take 6 (ToLower (d @ rest)) \<noteq> ''export''" by simp
  then have p: "\<not> HasPrefix (ToLower (d @ rest)) ''export''"
    unfolding HasPrefix_def length_export .
  have "take 8 (ToLower (d @ rest)) = ToLower d"
    using l by (simp add: ToLower_def)
  then have q: "HasPrefix (ToLower (d @ rest)) ''overload''"
    unfolding HasPrefix_def length_overload d .
  have dr: "drop 8 (d @ rest) = rest" using l by simp
  have e: "export_directive (d @ rest) = (False, d @ rest)"
    by (simp only: export_directive_def p if_False)
  have o: "overload_directive (d @ rest) = (True, rest)"
    by (simp only: overload_directive_def q if_True dr validation_TrimSpace [OF rest])
  show ?thesis by (simp only: parse_key_def t e o Let_def prod.case)
qed

text \<open>
  Claim C8, as stated: a key part that is one token beginning with the letters of a
  directive, with no white space after them, is taken whole as the key name and sets no
  flag. The source strips the letters all the same: the line \<open>EXPORTED_VAR=1\<close> gives
  the key \<open>ED_VAR\<close> with the export flag.
\<close>

theorem directive_letters_are_stripped_without_space:
  "parse_line ''f'' 1 ''EXPORTED_VAR=1'' [] =
     Inr [\<lparr>Line = 1, Export = True, Overload = False, Key = ''ED_VAR'', Value = ''1''\<rparr>]"
  by code_simp

text \<open>
  Claim C8, amended: a directive is recognised from its letters alone, with or without
  white space after them. For every key part that is one token made of the letters
  \<open>export\<close>, in any case, and a key name \<open>rest\<close> right after them (one that does not
  begin with \<open>overload\<close>), the line parser sets the export flag and takes \<open>rest\<close> as
  the key; for every token made of the letters \<open>overload\<close> and a key name \<open>rest\<close>
  right after them, it sets the overload flag and takes \<open>rest\<close> as the key.
\<close>

theorem directive_needs_no_space:
  "validation rest \<Longrightarrow>
   (ToLower d = ''export'' \<and> \<not> HasPrefix (ToLower rest) ''overload'' \<longrightarrow>
      parse_key (d @ rest) = (True, False, rest)) \<and>
   (ToLower d = ''overload'' \<longrightarrow> parse_key (d @ rest) = (False, True, rest))"
  using export_token overload_token by blast

theorem directive_needs_no_space_witness:
  "validation ''ED_VAR'' \<and> ToLower ''EXPORT'' = ''export'' \<and>
   \<not> HasPrefix (ToLower ''ED_VAR'') ''overload'' \<and>
   parse_key (''EXPORT'' @ ''ED_VAR'') = (True, False, ''ED_VAR'')"
proof -
  have a: "validation ''ED_VAR''" by code_simp
  have b: "ToLower ''EXPORT'' = ''export''" by code_simp
  have c: "\<not> HasPrefix (ToLower ''ED_VAR'') ''overload''" by code_simp
  from a b c directive_needs_no_space [OF a, of "''EXPORT''"] show ?thesis by blast
qed

section \<open>The resolver changes values only\<close>

lemma skeleton_append [simp]: "skeleton (xs @ ys) = skeleton xs @ skeleton ys"
  by (simp add: skeleton_def)

lemma skeleton_Cons [simp]: "skeleton (p # ps) = p\<lparr>Value := []\<rparr> # skeleton ps"
  by (simp add: skeleton_def)

lemma skeleton_Nil [simp]: "skeleton [] = []"
  by (simp add: skeleton_def)

lemma skeleton_Key: "skeleton ps' = skeleton ps \<Longrightarrow> map Key ps' = map Key ps"
proof -
  assume a: "skeleton ps' = skeleton ps"
  have "map Key qs = map Key (skeleton qs)" for qs
    by (simp add: skeleton_def comp_def)
  with a show ?thesis by metis
qed

lemma subst_loop_skeleton:
  "subst_loop filename env variable positions done rest = Inr ps' \<Longrightarrow>
   skeleton ps' = skeleton (done @ rest)"
proof (induction rest arbitrary: "done")
  case Nil
  then show ?case by simp
next
  case (Cons p rest)
  show ?case
  proof (cases "Key p = variable")
    case True
    with Cons.prems obtain v where
      "subst_loop filename env variable positions (done @ [p\<lparr>Value := v\<rparr>]) rest = Inr ps'"
      by (auto split: sum.splits)
    from Cons.IH [OF this] show ?thesis by simp
  next
    case False
    with Cons.prems have "subst_loop filename env variable positions (done @ [p]) rest = Inr ps'"
      by simp
    from Cons.IH [OF this] show ?thesis by simp
  qed
qed

lemma substitute_skeleton:
  "substitute filename env temp order ps = Inr ps' \<Longrightarrow> skeleton ps' = skeleton ps"
proof (induction order arbitrary: ps)
  case Nil
  then show ?case by simp
next
  case (Cons variable order)
  show ?case
  proof (cases "map_of temp variable")
    case None
    with Cons show ?thesis by simp
  next
    case (Some positions)
    with Cons.prems obtain ps1 where 1: "subst_loop filename env variable positions [] ps = Inr ps1"
      and 2: "substitute filename env temp order ps1 = Inr ps'"
      by (auto split: sum.splits)
    from subst_loop_skeleton [OF 1] Cons.IH [OF 2] show ?thesis by simp
  qed
qed

lemma resolve_skeleton_aux:
  assumes "resolve sched0 n0 filename0 env0 ps0 = Some y0"
  shows "\<forall>ps'. y0 = Inr ps' \<longrightarrow> skeleton ps' = skeleton ps0"
proof (rule resolve.raw_induct
    [where P = "\<lambda>sched n filename env ps y. \<forall>ps'. y = Inr ps' \<longrightarrow> skeleton ps' = skeleton ps",
     OF _ assms])
  fix f :: "schedule \<Rightarrow> nat \<Rightarrow> string \<Rightarrow> env \<Rightarrow> payload list \<Rightarrow> (error + payload list) option"
  fix sched n filename env payloads y
  assume IH: "\<And>sched n filename env payloads y. f sched n filename env payloads = Some y \<Longrightarrow>
    \<forall>ps'. y = Inr ps' \<longrightarrow> skeleton ps' = skeleton payloads"
  assume step: "(case tokenize filename payloads [] of
        Inl e \<Rightarrow> Some (Inl e)
      | Inr temp \<Rightarrow>
          if length temp > 0 then
            (case substitute filename env temp (sched n (map fst temp)) payloads of
               Inl e \<Rightarrow> Some (Inl e)
             | Inr payloads' \<Rightarrow> f sched (Suc n) filename env payloads')
          else Some (Inr payloads)) = Some y"
  show "\<forall>ps'. y = Inr ps' \<longrightarrow> skeleton ps' = skeleton payloads"
  proof (cases "tokenize filename payloads []")
    case (Inl e)
    with step show ?thesis by auto
  next
    case (Inr temp)
    show ?thesis
    proof (cases "length temp > 0")
      case False
      with Inr step show ?thesis by auto
    next
      case True
      show ?thesis
      proof (cases "substitute filename env temp (sched n (map fst temp)) payloads")
        case (Inl e)
        with Inr True step show ?thesis by auto
      next
        case r: (Inr payloads')
        with Inr True step have "f sched (Suc n) filename env payloads' = Some y" by simp
        from IH [OF this] substitute_skeleton [OF r] show ?thesis by simp
      qed
    qed
  qed
qed

lemma resolve_skeleton:
  "resolve sched n filename env ps = Some (Inr ps') \<Longrightarrow> skeleton ps' = skeleton ps"
  using resolve_skeleton_aux by blast


section \<open>Parse returns payloads with different keys\<close>

lemma parse_key_cases: "\<exists>ex ov k. parse_key left = (ex, ov, k)"
  by (metis prod_cases3)

lemma parse_line_distinct:
  assumes "parse_line filename line text payloads = Inr payloads'"
    and "distinct (map Key payloads)"
  shows "distinct (map Key payloads')"
proof -
  obtain ex ov k where pk: "parse_key (SplitN2 (TrimSpace text) ! 0) = (ex, ov, k)"
    using parse_key_cases by blast
  from assms(1) have "payloads' = payloads \<or>
     (\<not> list_ex (\<lambda>pld. Key pld = k) payloads \<and>
      payloads' = payloads @ [\<lparr>Line = line, Export = ex, Overload = ov, Key = k,
         Value = TrimSpace (SplitN2 (TrimSpace text) ! 1)\<rparr>])"
    by (simp add: parse_line_def Let_def pk split: if_splits)
  then show ?thesis
  proof
    assume "payloads' = payloads"
    with assms(2) show ?thesis by simp
  next
    assume a: "\<not> list_ex (\<lambda>pld. Key pld = k) payloads \<and>
      payloads' = payloads @ [\<lparr>Line = line, Export = ex, Overload = ov, Key = k,
         Value = TrimSpace (SplitN2 (TrimSpace text) ! 1)\<rparr>]"
    then have "k \<notin> set (map Key payloads)" by (auto simp: list_ex_iff)
    with a assms(2) show ?thesis by simp
  qed
qed

lemma parse_lines_distinct:
  "parse_lines filename line texts payloads = Inr payloads' \<Longrightarrow>
   distinct (map Key payloads) \<Longrightarrow> distinct (map Key payloads')"
proof (induction texts arbitrary: line payloads)
  case Nil
  then show ?case by simp
next
  case (Cons t rest)
  from Cons.prems(1) obtain ps1 where 1: "parse_line filename (Suc line) t payloads = Inr ps1"
    and 2: "parse_lines filename (Suc line) rest ps1 = Inr payloads'"
    by (auto split: sum.splits)
  from Cons.IH [OF 2] parse_line_distinct [OF 1 Cons.prems(2)] show ?case .
qed

lemma skeleton_escape: "skeleton (map escape_payload ps) = skeleton ps"
  by (simp add: skeleton_def escape_payload_def)

lemma Parse_skeleton:
  assumes "Parse fs sched env filename = Some (Inr payloads)"
  shows "\<exists>lines parsed. fs filename = Some lines \<and>
     parse_lines filename 0 lines [] = Inr parsed \<and> skeleton payloads = skeleton parsed"
proof -
  from assms obtain lines where l: "fs filename = Some lines"
    by (auto simp: Parse_def split: option.splits)
  with assms obtain parsed where p: "parse_lines filename 0 lines [] = Inr parsed"
    by (auto simp: Parse_def split: sum.splits)
  with assms l obtain ps' where r: "resolve sched 0 filename env parsed = Some (Inr ps')"
    and e: "payloads = map escape_payload ps'"
    by (auto simp: Parse_def split: option.splits sum.splits)
  from resolve_skeleton [OF r] e have "skeleton payloads = skeleton parsed"
    by (simp add: skeleton_escape)
  with l p show ?thesis by blast
qed

lemma Parse_distinct:
  assumes "Parse fs sched env filename = Some (Inr payloads)"
  shows "distinct (map Key payloads)"
proof -
  from Parse_skeleton [OF assms] obtain lines parsed where
    p: "parse_lines filename 0 lines [] = Inr parsed" and s: "skeleton payloads = skeleton parsed"
    by blast
  from parse_lines_distinct [OF p] have "distinct (map Key parsed)" by simp
  with skeleton_Key [OF s] show ?thesis by simp
qed


section \<open>Load\<close>

lemma load_payload_other:
  "load_payload filename writable env p = Inr env' \<Longrightarrow> k \<noteq> Key p \<Longrightarrow> env' k = env k"
  by (auto simp: load_payload_def Setenv_def LookupEnv_def Let_def
      split: if_splits option.splits)

lemma load_payloads_other:
  "load_payloads filename writable env ps = (err, env') \<Longrightarrow> k \<notin> set (map Key ps) \<Longrightarrow>
   env' k = env k"
proof (induction ps arbitrary: env)
  case Nil
  then show ?case by simp
next
  case (Cons p ps)
  show ?case
  proof (cases "load_payload filename writable env p")
    case (Inl e)
    with Cons.prems show ?thesis by simp
  next
    case (Inr env1)
    with Cons.prems have "load_payloads filename writable env1 ps = (err, env')" by simp
    from Cons.IH [OF this] Cons.prems(2) load_payload_other [OF Inr, of k]
    show ?thesis by simp
  qed
qed

lemma load_payloads_append:
  "load_payloads filename writable env (xs @ ys) =
     (case load_payloads filename writable env xs of
        (Some e, env') \<Rightarrow> (Some e, env')
      | (None, env') \<Rightarrow> load_payloads filename writable env' ys)"
  by (induction xs arbitrary: env) (auto split: sum.splits)

lemma load_files_append:
  "load_files fs scheds writable i env (xs @ ys) =
     (case load_files fs scheds writable i env xs of
        None \<Rightarrow> None
      | Some (Some e, env') \<Rightarrow> Some (Some e, env')
      | Some (None, env') \<Rightarrow> load_files fs scheds writable (i + length xs) env' ys)"
proof (induction xs arbitrary: i env)
  case Nil
  then show ?case by simp
next
  case (Cons x xs)
  show ?case
    by (simp add: Cons.IH split: option.splits sum.splits prod.splits)
qed

lemma Load_nonempty:
  "filenames \<noteq> [] \<Longrightarrow> Load fs scheds writable env filenames = load_files fs scheds writable 0 env filenames"
  by (simp add: Load_def)

text \<open>The load of the last file of the list.\<close>

lemma Load_last:
  assumes "load_files fs scheds writable 0 env before = Some (None, env1)"
    and "Parse fs (scheds (length before)) env1 filename = Some (Inr payloads)"
  shows "Load fs scheds writable env (before @ [filename]) =
     Some (load_payloads filename writable env1 payloads)"
  using assms
  by (simp add: Load_nonempty load_files_append split: prod.splits option.splits)

lemma distinct_split:
  assumes "distinct (map Key ps)" "p \<in> set ps"
  shows "\<exists>xs ys. ps = xs @ p # ys \<and> Key p \<notin> set (map Key xs) \<and> Key p \<notin> set (map Key ys)"
proof -
  from assms(2) obtain xs ys where s: "ps = xs @ p # ys" by (auto simp: in_set_conv_decomp)
  with assms(1) have "Key p \<notin> set (map Key xs)" "Key p \<notin> set (map Key ys)" by auto
  with s show ?thesis by blast
qed

lemma load_payloads_at:
  assumes d: "distinct (map Key ps)" and p: "p \<in> set ps"
    and l: "load_payloads filename writable env ps = (err, env')"
  shows "(err \<noteq> None \<and> env' (Key p) = env (Key p)) \<or>
         (\<exists>env1 env2. env1 (Key p) = env (Key p) \<and>
            load_payload filename writable env1 p = Inr env2 \<and> env' (Key p) = env2 (Key p))"
proof -
  from distinct_split [OF d p] obtain xs ys where s: "ps = xs @ p # ys"
    and nx: "Key p \<notin> set (map Key xs)" and ny: "Key p \<notin> set (map Key ys)" by blast
  obtain e1 env1 where x: "load_payloads filename writable env xs = (e1, env1)" by force
  from load_payloads_other [OF x nx] have k1: "env1 (Key p) = env (Key p)" .
  show ?thesis
  proof (cases e1)
    case (Some e)
    with l s x have "err = Some e" "env' = env1" by (auto simp: load_payloads_append)
    with k1 show ?thesis by simp
  next
    case None
    show ?thesis
    proof (cases "load_payload filename writable env1 p")
      case (Inl e)
      with l s x None have "err = Some e" "env' = env1" by (auto simp: load_payloads_append)
      with k1 show ?thesis by simp
    next
      case (Inr env2)
      with l s x None have "load_payloads filename writable env2 ys = (err, env')"
        by (auto simp: load_payloads_append)
      from load_payloads_other [OF this ny] have "env' (Key p) = env2 (Key p)" .
      with k1 Inr show ?thesis by blast
    qed
  qed
qed

subsection \<open>Examples of loads\<close>

lemma port_parse:
  "Parse port_file in_order port_env ''f'' = Some (Inr
     [\<lparr>Line = 1, Export = False, Overload = True, Key = ''PORT'', Value = ''3000''\<rparr>,
      \<lparr>Line = 2, Export = True, Overload = False, Key = ''HOME'', Value = ''/srv''\<rparr>,
      \<lparr>Line = 3, Export = True, Overload = False, Key = ''EMPTY'', Value = ''''\<rparr>])"
  by code_simp

lemma port_payloads:
  "load_payloads ''f'' all_writable port_env
     [\<lparr>Line = 1, Export = False, Overload = True, Key = ''PORT'', Value = ''3000''\<rparr>,
      \<lparr>Line = 2, Export = True, Overload = False, Key = ''HOME'', Value = ''/srv''\<rparr>,
      \<lparr>Line = 3, Export = True, Overload = False, Key = ''EMPTY'', Value = ''''\<rparr>] =
   (None, port_env(''PORT'' \<mapsto> ''3000''))"
  by (simp add: load_payload_def LookupEnv_def Setenv_def all_writable_def port_env_def)

lemma port_load:
  "Load port_file (\<lambda>i. in_order) all_writable port_env [''f''] =
     Some (None, port_env(''PORT'' \<mapsto> ''3000''))"
proof -
  have "Load port_file (\<lambda>i. in_order) all_writable port_env [''f''] =
     load_files port_file (\<lambda>i. in_order) all_writable 0 port_env [''f'']"
    by (simp add: Load_def)
  also have "\<dots> = Some (None, port_env(''PORT'' \<mapsto> ''3000''))"
    by (simp only: load_files.simps port_parse port_payloads option.case sum.case prod.case)
  finally show ?thesis .
qed

lemma a_parse:
  "Parse three_files in_order Map.empty ''a'' = Some (Inr
     [\<lparr>Line = 1, Export = True, Overload = False, Key = ''A'', Value = ''1''\<rparr>])"
  by code_simp

lemma b_parse:
  "Parse three_files in_order [''A'' \<mapsto> ''1''] ''b'' = Some (Inr
     [\<lparr>Line = 1, Export = True, Overload = False, Key = ''B'', Value = ''ok''\<rparr>,
      \<lparr>Line = 2, Export = True, Overload = False, Key = ''C'', Value = ''bad''\<rparr>])"
  by code_simp

lemma c_parse:
  "Parse three_files in_order [''A'' \<mapsto> ''1''] ''c'' = Some (Inl (CantSplitLine ''c'' 1))"
  by code_simp

lemma a_load:
  "load_files three_files (\<lambda>i. in_order) not_bad 0 Map.empty [''a''] =
     Some (None, [''A'' \<mapsto> ''1''])"
  by (simp add: a_parse load_payload_def LookupEnv_def Setenv_def not_bad_def)

lemma b_loaded:
  "load_payloads ''b'' not_bad [''A'' \<mapsto> ''1'']
     [\<lparr>Line = 1, Export = True, Overload = False, Key = ''B'', Value = ''ok''\<rparr>] =
   (None, [''A'' \<mapsto> ''1'', ''B'' \<mapsto> ''ok''])"
  by (simp add: load_payload_def LookupEnv_def Setenv_def not_bad_def)

lemma c_refused:
  "load_payload ''b'' not_bad [''A'' \<mapsto> ''1'', ''B'' \<mapsto> ''ok'']
     \<lparr>Line = 2, Export = True, Overload = False, Key = ''C'', Value = ''bad''\<rparr> =
   Inl (SetenvError ''b'')"
  by (simp add: load_payload_def LookupEnv_def Setenv_def not_bad_def)

subsection \<open>Overload and export\<close>






subsection \<open>An exported empty value\<close>

text \<open>
  Claim C9: an entry with the export flag and without the overload flag, whose key is
  absent from the ambient environment and whose resolved value is the empty string,
  leaves the key unset: after the load of its file the key is still absent.
\<close>

theorem empty_export_leaves_key_unset:
  assumes before: "load_files fs scheds writable 0 env before = Some (None, env1)"
    and parse: "Parse fs (scheds (length before)) env1 filename = Some (Inr payloads)"
    and p: "p \<in> set payloads"
    and flags: "Export p" "\<not> Overload p"
    and absent: "env1 (Key p) = None"
    and empty: "Value p = []"
    and load: "Load fs scheds writable env (before @ [filename]) = Some (err, env')"
  shows "env' (Key p) = None"
proof -
  from Load_last [OF before parse] load
  have l: "load_payloads filename writable env1 payloads = (err, env')" by simp
  note at = load_payloads_at [OF Parse_distinct [OF parse] p l]
  have step: "e2 (Key p) = None"
    if a: "e1 (Key p) = env1 (Key p)" and b: "load_payload filename writable e1 p = Inr e2"
    for e1 e2
  proof -
    from a absent have "LookupEnv e1 (Key p) = ([], False)" by (simp add: LookupEnv_def)
    with b flags empty have "e2 = e1" by (simp add: load_payload_def)
    with a absent show ?thesis by simp
  qed
  from at show ?thesis
  proof
    assume "err \<noteq> None \<and> env' (Key p) = env1 (Key p)"
    with absent show ?thesis by simp
  next
    assume "\<exists>e1 e2. e1 (Key p) = env1 (Key p) \<and>
      load_payload filename writable e1 p = Inr e2 \<and> env' (Key p) = e2 (Key p)"
    then obtain e1 e2 where "e1 (Key p) = env1 (Key p)"
      "load_payload filename writable e1 p = Inr e2" "env' (Key p) = e2 (Key p)" by blast
    with step show ?thesis by simp
  qed
qed

theorem empty_export_leaves_key_unset_witness:
  "load_files port_file (\<lambda>i. in_order) all_writable 0 port_env [] = Some (None, port_env) \<and>
   port_env ''EMPTY'' = None \<and>
   Load port_file (\<lambda>i. in_order) all_writable port_env [''f''] =
     Some (None, port_env(''PORT'' \<mapsto> ''3000'')) \<and>
   (port_env(''PORT'' \<mapsto> ''3000'')) ''EMPTY'' = None"
proof -
  let ?P = "\<lparr>Line = 1, Export = False, Overload = True, Key = ''PORT'', Value = ''3000''\<rparr>"
  let ?H = "\<lparr>Line = 2, Export = True, Overload = False, Key = ''HOME'', Value = ''/srv''\<rparr>"
  let ?E = "\<lparr>Line = 3, Export = True, Overload = False, Key = ''EMPTY'', Value = ''''\<rparr>"
  have b: "load_files port_file (\<lambda>i. in_order) all_writable 0 port_env [] = Some (None, port_env)"
    by simp
  have parse: "Parse port_file ((\<lambda>i. in_order) (length [])) port_env ''f'' = Some (Inr [?P, ?H, ?E])"
    using port_parse by simp
  have load: "Load port_file (\<lambda>i. in_order) all_writable port_env ([] @ [''f'']) =
     Some (None, port_env(''PORT'' \<mapsto> ''3000''))"
    using port_load by simp
  have absent: "port_env (Key ?E) = None"
    by (simp add: port_env_def)
  have "(port_env(''PORT'' \<mapsto> ''3000'')) (Key ?E) = None"
    using empty_export_leaves_key_unset [OF b parse _ _ _ absent _ load] by simp
  with b absent port_load show ?thesis by simp
qed

subsection \<open>No rollback\<close>

text \<open>
  Claim C10: Load does not roll back. When the files \<open>before\<close> were loaded without an
  error and left the environment \<open>env1\<close>, and the next file is the first with an error,
  then Load returns that error and leaves \<open>env1\<close> when the error comes from Parse, and
  leaves \<open>env2\<close>, the environment with the writes for the earlier entries of that file
  too, when the error is a refused write.
\<close>

theorem Load_does_not_roll_back:
  assumes before: "load_files fs scheds writable 0 env before = Some (None, env1)"
  shows "(Parse fs (scheds (length before)) env1 filename = Some (Inl e) \<longrightarrow>
            Load fs scheds writable env (before @ filename # rest) = Some (Some e, env1)) \<and>
         (Parse fs (scheds (length before)) env1 filename = Some (Inr (loaded @ payload # todo)) \<and>
          load_payloads filename writable env1 loaded = (None, env2) \<and>
          load_payload filename writable env2 payload = Inl e \<longrightarrow>
            Load fs scheds writable env (before @ filename # rest) = Some (Some e, env2))"
  using before
  by (simp add: Load_nonempty load_files_append load_payloads_append)

theorem Load_does_not_roll_back_witness:
  "load_files three_files (\<lambda>i. in_order) not_bad 0 Map.empty [''a''] =
     Some (None, [''A'' \<mapsto> ''1'']) \<and>
   Parse three_files in_order [''A'' \<mapsto> ''1''] ''c'' = Some (Inl (CantSplitLine ''c'' 1)) \<and>
   Load three_files (\<lambda>i. in_order) not_bad Map.empty [''a'', ''c'', ''b''] =
     Some (Some (CantSplitLine ''c'' 1), [''A'' \<mapsto> ''1'']) \<and>
   load_payload ''b'' not_bad [''A'' \<mapsto> ''1'', ''B'' \<mapsto> ''ok'']
     \<lparr>Line = 2, Export = True, Overload = False, Key = ''C'', Value = ''bad''\<rparr> =
     Inl (SetenvError ''b'') \<and>
   Load three_files (\<lambda>i. in_order) not_bad Map.empty [''a'', ''b'', ''c''] =
     Some (Some (SetenvError ''b''), [''A'' \<mapsto> ''1'', ''B'' \<mapsto> ''ok''])"
proof -
  let ?B = "\<lparr>Line = 1, Export = True, Overload = False, Key = ''B'', Value = ''ok''\<rparr>"
  let ?C = "\<lparr>Line = 2, Export = True, Overload = False, Key = ''C'', Value = ''bad''\<rparr>"
  have c: "Parse three_files ((\<lambda>i. in_order) (length [''a''])) [''A'' \<mapsto> ''1''] ''c'' =
     Some (Inl (CantSplitLine ''c'' 1))"
    using c_parse by simp
  have b: "Parse three_files ((\<lambda>i. in_order) (length [''a''])) [''A'' \<mapsto> ''1''] ''b'' =
     Some (Inr ([?B] @ ?C # []))"
    using b_parse by simp
  have 1: "Load three_files (\<lambda>i. in_order) not_bad Map.empty ([''a''] @ ''c'' # [''b'']) =
     Some (Some (CantSplitLine ''c'' 1), [''A'' \<mapsto> ''1''])"
    using Load_does_not_roll_back [OF a_load] c by blast
  have 2: "Load three_files (\<lambda>i. in_order) not_bad Map.empty ([''a''] @ ''b'' # [''c'']) =
     Some (Some (SetenvError ''b''), [''A'' \<mapsto> ''1'', ''B'' \<mapsto> ''ok''])"
    using Load_does_not_roll_back [OF a_load] b b_loaded c_refused by blast
  from a_load c_parse c_refused 1 2 show ?thesis by simp
qed

section \<open>The substitution resolver on examples\<close>

lemma map_order_single:
  assumes "map_order sched"
  shows "sched n [a] = [a]"
proof -
  from assms have "mset (sched n [a]) = {#a#}" by (simp add: map_order_def)
  then show ?thesis by simp
qed

lemma map_order_pair:
  assumes "map_order sched"
  shows "sched n [a, b] = [a, b] \<or> sched n [a, b] = [b, a]"
proof -
  from assms have m: "mset (sched n [a, b]) = {#a, b#}" by (simp add: map_order_def)
  then have "length (sched n [a, b]) = 2" by (metis size_mset size_add_mset size_empty numeral_2_eq_2)
  then obtain x y where xy: "sched n [a, b] = [x, y]"
    by (auto simp: length_Suc_conv numeral_2_eq_2)
  with m have "{#x, y#} = {#a, b#}" by simp
  then have "(x = a \<and> y = b) \<or> (x = b \<and> y = a)"
    by (auto simp: add_eq_conv_ex)
  with xy show ?thesis by auto
qed

lemma chain_lines:
  "parse_lines ''f'' 0 [''A = foo'', ''B = { A }bar'', ''C = { B }baz''] [] = Inr chain_start"
  by code_simp

lemma chain_tokens:
  "tokenize ''f'' chain_start [] = Inr [(''B'', [(1, 4)]), (''C'', [(1, 4)])]"
  by code_simp

lemma chain_BC:
  "substitute ''f'' env [(''B'', [(1, 4)]), (''C'', [(1, 4)])] [''B'', ''C''] chain_start =
   Inr chain_final"
  by code_simp

lemma chain_CB:
  "substitute ''f'' env [(''B'', [(1, 4)]), (''C'', [(1, 4)])] [''C'', ''B''] chain_start =
   Inr chain_half"
  by code_simp

lemma chain_tokens_half: "tokenize ''f'' chain_half [] = Inr [(''C'', [(1, 4)])]"
  by code_simp

lemma chain_C: "substitute ''f'' env [(''C'', [(1, 4)])] [''C''] chain_half = Inr chain_final"
  by code_simp

lemma chain_tokens_final: "tokenize ''f'' chain_final [] = Inr []"
  by code_simp

lemma chain_escape: "map escape_payload chain_final = chain_final"
  by code_simp

lemma chain_resolve_final: "resolve sched n ''f'' env chain_final = Some (Inr chain_final)"
  by (subst resolve.simps) (simp add: chain_tokens_final)

lemma chain_resolve_half:
  "map_order sched \<Longrightarrow> resolve sched n ''f'' env chain_half = Some (Inr chain_final)"
  by (subst resolve.simps)
    (simp add: chain_tokens_half map_order_single chain_C chain_resolve_final
       del: One_nat_def substitute.simps)

lemma chain_resolve_start:
  assumes "map_order sched"
  shows "resolve sched 0 ''f'' env chain_start = Some (Inr chain_final)"
proof -
  from map_order_pair [OF assms, of 0 "''B''" "''C''"]
  show ?thesis
  proof
    assume "sched 0 [''B'', ''C''] = [''B'', ''C'']"
    then show ?thesis
      by (subst resolve.simps)
        (simp add: chain_tokens chain_BC chain_resolve_final del: One_nat_def substitute.simps)
  next
    assume "sched 0 [''B'', ''C''] = [''C'', ''B'']"
    then show ?thesis
      by (subst resolve.simps)
        (simp add: chain_tokens chain_CB chain_resolve_half [OF assms]
           del: One_nat_def substitute.simps)
  qed
qed

lemma map_order_backwards: "map_order backwards"
  by (simp add: map_order_def backwards_def)

lemma map_order_in_order: "map_order in_order"
  by (simp add: map_order_def in_order_def)

text \<open>
  Claim C1: for the file with exactly the entries \<open>A = foo\<close>, \<open>B = { A }bar\<close> and
  \<open>C = { B }baz\<close>, the loop of the resolver ends and Parse returns the values \<open>foo\<close>,
  \<open>foobar\<close> and \<open>foobarbaz\<close>, in whatever order each pass visits the keys of its map.
\<close>

theorem chain_resolves_in_every_order:
  assumes "map_order sched"
  shows "Parse chain_file sched env ''f'' = Some (Inr chain_final) \<and>
         map (\<lambda>p. (Key p, Value p)) chain_final =
           [(''A'', ''foo''), (''B'', ''foobar''), (''C'', ''foobarbaz'')]"
proof -
  have "Parse chain_file sched env ''f'' = Some (Inr chain_final)"
    by (simp add: Parse_def chain_file_def chain_lines chain_resolve_start [OF assms]
        chain_escape del: parse_lines.simps)
  moreover have "map (\<lambda>p. (Key p, Value p)) chain_final =
      [(''A'', ''foo''), (''B'', ''foobar''), (''C'', ''foobarbaz'')]"
    by (simp add: chain_final_def)
  ultimately show ?thesis ..
qed

theorem chain_resolves_in_every_order_witness:
  "map_order backwards \<and>
   Parse chain_file backwards Map.empty ''f'' = Some (Inr chain_final) \<and>
   map (\<lambda>p. (Key p, Value p)) chain_final =
     [(''A'', ''foo''), (''B'', ''foobar''), (''C'', ''foobarbaz'')]"
  using map_order_backwards chain_resolves_in_every_order [OF map_order_backwards, of Map.empty]
  by blast

subsection \<open>Cycles\<close>

lemma cycle_lines: "parse_lines ''f'' 0 [''A = { B }'', ''B = { A }''] [] = Inr cycle_start"
  by code_simp

lemma cycle_tokens:
  "tokenize ''f'' cycle_start [] = Inr [(''A'', [(1, 4)]), (''B'', [(1, 4)])]"
  by code_simp

lemma cycle_sub_AB:
  "substitute ''f'' env [(''A'', [(1, 4)]), (''B'', [(1, 4)])] [''A'', ''B''] cycle_start =
   Inr cycle_AB"
  by code_simp

lemma cycle_sub_BA:
  "substitute ''f'' env [(''A'', [(1, 4)]), (''B'', [(1, 4)])] [''B'', ''A''] cycle_start =
   Inr cycle_BA"
  by code_simp

lemma cycle_tokens_AB: "tokenize ''f'' cycle_AB [] = Inl (UsedRecursively ''f'' 1 ''A'')"
  by code_simp

lemma cycle_tokens_BA: "tokenize ''f'' cycle_BA [] = Inl (UsedRecursively ''f'' 2 ''B'')"
  by code_simp

lemma cycle_resolve_AB:
  "resolve sched n ''f'' env cycle_AB = Some (Inl (UsedRecursively ''f'' 1 ''A''))"
  by (subst resolve.simps) (simp add: cycle_tokens_AB del: One_nat_def)

lemma cycle_resolve_BA:
  "resolve sched n ''f'' env cycle_BA = Some (Inl (UsedRecursively ''f'' 2 ''B''))"
  by (subst resolve.simps) (simp add: cycle_tokens_BA del: One_nat_def)

lemma cycle_resolve:
  assumes "map_order sched"
  shows "resolve sched 0 ''f'' env cycle_start = Some (Inl (UsedRecursively ''f'' 1 ''A'')) \<or>
         resolve sched 0 ''f'' env cycle_start = Some (Inl (UsedRecursively ''f'' 2 ''B''))"
proof -
  from map_order_pair [OF assms, of 0 "''A''" "''B''"]
  show ?thesis
  proof
    assume "sched 0 [''A'', ''B''] = [''A'', ''B'']"
    then have "resolve sched 0 ''f'' env cycle_start = Some (Inl (UsedRecursively ''f'' 1 ''A''))"
      by (subst resolve.simps)
        (simp add: cycle_tokens cycle_sub_AB cycle_resolve_AB del: One_nat_def substitute.simps)
    then show ?thesis ..
  next
    assume "sched 0 [''A'', ''B''] = [''B'', ''A'']"
    then have "resolve sched 0 ''f'' env cycle_start = Some (Inl (UsedRecursively ''f'' 2 ''B''))"
      by (subst resolve.simps)
        (simp add: cycle_tokens cycle_sub_BA cycle_resolve_BA del: One_nat_def substitute.simps)
    then show ?thesis ..
  qed
qed

lemma cycle_Parse:
  assumes "map_order sched"
  shows "Parse cycle_file sched env ''f'' = Some (Inl (UsedRecursively ''f'' 1 ''A'')) \<or>
         Parse cycle_file sched env ''f'' = Some (Inl (UsedRecursively ''f'' 2 ''B''))"
  using cycle_resolve [OF assms, of env]
  by (auto simp add: Parse_def cycle_file_def cycle_lines simp del: parse_lines.simps One_nat_def)

subsection \<open>A cycle of two entries that runs forever\<close>

lemma two_lines:
  "parse_lines ''f'' 0 [''A = { O }{ B }{ X }{ V }'', ''B = { A }''] [] = Inr two_start"
  by code_simp

lemma two_refers: "refers_to ''{ O }{ B }{ X }{ V }'' ''B'' \<and> refers_to ''{ A }'' ''A''"
  by code_simp

lemma two_tokens: "tokenize ''f'' two_start [] = Inr two_temp"
  by code_simp

lemma two_keys: "map fst two_temp = [''A'', ''B'']"
  by (simp add: two_temp_def)

lemma two_sub: "substitute ''f'' two_env two_temp [''A'', ''B''] two_start = Inr two_loop"
  by code_simp

lemma loop_tokens: "tokenize ''f'' two_loop [] = Inr loop_temp"
  by code_simp

lemma loop_keys: "map fst loop_temp = [''A'', ''B'']"
  by (simp add: loop_temp_def)

lemma loop_length: "loop_temp \<noteq> []" "two_temp \<noteq> []"
  by (simp_all add: loop_temp_def two_temp_def)

lemma loop_AB: "substitute ''f'' two_env loop_temp [''A'', ''B''] two_loop = Inr two_loop"
  by code_simp

lemma loop_BA: "substitute ''f'' two_env loop_temp [''B'', ''A''] two_loop = Inr two_loop"
  by code_simp

lemma loop_sub:
  assumes "map_order sched"
  shows "substitute ''f'' two_env loop_temp (sched n [''A'', ''B'']) two_loop = Inr two_loop"
  using map_order_pair [OF assms, of n "''A''" "''B''"] loop_AB loop_BA by auto

text \<open>Every pass over \<open>two_loop\<close> gives \<open>two_loop\<close> again, in both orders of the map, so
  no call of the loop on it returns.\<close>

lemma loop_resolve_aux:
  assumes order: "map_order sched0"
    and r: "resolve sched1 n1 filename1 env1 ps1 = Some y1"
  shows "\<not> (sched1 = sched0 \<and> filename1 = ''f'' \<and> env1 = two_env \<and> ps1 = two_loop)"
proof (rule resolve.raw_induct
    [where P = "\<lambda>sched n filename env ps y.
       \<not> (sched = sched0 \<and> filename = ''f'' \<and> env = two_env \<and> ps = two_loop)", OF _ r])
  fix f :: "schedule \<Rightarrow> nat \<Rightarrow> string \<Rightarrow> env \<Rightarrow> payload list \<Rightarrow> (error + payload list) option"
  fix sched n filename env payloads y
  assume IH: "\<And>sched n filename env payloads y. f sched n filename env payloads = Some y \<Longrightarrow>
    \<not> (sched = sched0 \<and> filename = ''f'' \<and> env = two_env \<and> payloads = two_loop)"
  assume step: "(case tokenize filename payloads [] of
        Inl e \<Rightarrow> Some (Inl e)
      | Inr temp \<Rightarrow>
          if length temp > 0 then
            (case substitute filename env temp (sched n (map fst temp)) payloads of
               Inl e \<Rightarrow> Some (Inl e)
             | Inr payloads' \<Rightarrow> f sched (Suc n) filename env payloads')
          else Some (Inr payloads)) = Some y"
  show "\<not> (sched = sched0 \<and> filename = ''f'' \<and> env = two_env \<and> payloads = two_loop)"
  proof
    assume a: "sched = sched0 \<and> filename = ''f'' \<and> env = two_env \<and> payloads = two_loop"
    with step have "f sched0 (Suc n) ''f'' two_env two_loop = Some y"
      by (simp add: loop_tokens loop_keys loop_length loop_sub [OF order])
    from IH [OF this] show False by simp
  qed
qed

lemma loop_resolve:
  assumes "map_order sched"
  shows "resolve sched n ''f'' two_env two_loop = None"
proof (cases "resolve sched n ''f'' two_env two_loop")
  case None
  then show ?thesis .
next
  case (Some y)
  from loop_resolve_aux [OF assms Some] show ?thesis by simp
qed

lemma two_resolve:
  assumes "map_order sched" and "sched 0 [''A'', ''B''] = [''A'', ''B'']"
  shows "resolve sched 0 ''f'' two_env two_start = None"
  by (subst resolve.simps)
    (simp add: two_tokens two_keys loop_length assms(2) two_sub loop_resolve [OF assms(1)]
      del: substitute.simps One_nat_def)

text \<open>
  Claim C2: for some input entry set with a mutual reference cycle the fixed-point loop
  inside Parse never terminates. The file has the entries \<open>A = { O }{ B }{ X }{ V }\<close> and
  \<open>B = { A }\<close>, so the value of \<open>A\<close> refers to \<open>B\<close> and the value of \<open>B\<close> refers to \<open>A\<close>;
  in the ambient environment \<open>O\<close> is an opening brace, \<open>X\<close> a closing brace and \<open>V\<close> the
  text \<open>{ V }\<close>. Whenever the first pass visits \<open>A\<close> before \<open>B\<close>, whatever the order of the
  map in the later passes, Parse returns neither an error nor a result.
\<close>

theorem mutual_cycle_never_returns:
  assumes "map_order sched" and "sched 0 [''A'', ''B''] = [''A'', ''B'']"
  shows "two_file ''f'' = Some [''A = { O }{ B }{ X }{ V }'', ''B = { A }''] \<and>
         refers_to ''{ O }{ B }{ X }{ V }'' ''B'' \<and> refers_to ''{ A }'' ''A'' \<and>
         Parse two_file sched two_env ''f'' = None"
  using two_refers
  by (simp add: Parse_def two_file_def two_lines two_resolve [OF assms] del: parse_lines.simps)

theorem mutual_cycle_never_returns_witness:
  "map_order in_order \<and> in_order 0 [''A'', ''B''] = [''A'', ''B''] \<and>
   two_file ''f'' = Some [''A = { O }{ B }{ X }{ V }'', ''B = { A }''] \<and>
   refers_to ''{ O }{ B }{ X }{ V }'' ''B'' \<and> refers_to ''{ A }'' ''A'' \<and>
   Parse two_file in_order two_env ''f'' = None"
proof -
  have a: "map_order in_order" by (simp add: map_order_def in_order_def)
  have b: "in_order 0 [''A'', ''B''] = [''A'', ''B'']" by (simp add: in_order_def)
  from a b mutual_cycle_never_returns [OF a b] show ?thesis by blast
qed

subsection \<open>A self-reference behind a byte that is no UTF-8\<close>

text \<open>
  Claim C5: an entry whose value has a well-formed reference to the entry's own key
  makes Parse fail with the brace error for a key used recursively, whatever the rest
  of the value. The value of the entry \<open>A\<close> of \<open>stray_file\<close> is the byte \<open>0xFF\<close>, the
  reference \<open>{ A }\<close> and the letters \<open>bcd\<close>. The loop over the value (line 202 of the
  source) reads the byte as the rune \<open>U+FFFD\<close>, whose part has three bytes, so the
  offset of the next part is 3 and not 1: the name cut out of the value (line 317) is
  \<open>}b\<close>, the test of line 325 does not see the key, and the substitution reports a
  variable \<open>}b\<close> that does not exist. For the same value without the letters the slice
  of line 317 is out of range.
\<close>

theorem stray_byte_hides_self_reference:
  "stray_file ''f'' = Some [''A = '' @ [CHR 0xFF] @ ''{ A }bcd''] \<and>
   refers_to ([CHR 0xFF] @ ''{ A }bcd'') ''A'' \<and>
   Parse stray_file in_order Map.empty ''f'' = Some (Inl (DoesNotExist ''f'' 1 ''}b'')) \<and>
   kind_of (DoesNotExist ''f'' 1 ''}b'') = ResolutionError \<and>
   Parse stray_end_file in_order Map.empty ''f'' = Some (Inl Panic)"
proof -
  have a: "stray_file ''f'' = Some [''A = '' @ [CHR 0xFF] @ ''{ A }bcd'']"
    by (simp add: stray_file_def)
  have b: "refers_to ([CHR 0xFF] @ ''{ A }bcd'') ''A''" by code_simp
  have c: "Parse stray_file in_order Map.empty ''f'' = Some (Inl (DoesNotExist ''f'' 1 ''}b''))"
    by code_simp
  have d: "kind_of (DoesNotExist ''f'' 1 ''}b'') = ResolutionError" by simp
  have e: "Parse stray_end_file in_order Map.empty ''f'' = Some (Inl Panic)" by code_simp
  from a b c d e show ?thesis by blast
qed

end
